theory Spec2Isabelle
  imports Main
begin

section \<open>Strings, characters and the two regular expressions\<close>

text \<open>
  A JavaScript string is modelled as a \<^typ>\<open>string\<close>; one \<^typ>\<open>char\<close> stands for one
  code unit below 256. The character classes below are the ones the source's regular
  expressions and \<^verbatim>\<open>String.prototype.trim\<close> use, restricted to that range.
\<close>

definition is_letter :: "char \<Rightarrow> bool" where
  \<comment> \<open>\<^verbatim>\<open>[a-zA-Z]\<close>\<close>
  "is_letter c \<longleftrightarrow>
     (let n = (of_char c :: nat) in (97 \<le> n \<and> n \<le> 122) \<or> (65 \<le> n \<and> n \<le> 90))"

definition is_digit :: "char \<Rightarrow> bool" where
  \<comment> \<open>\<^verbatim>\<open>\d\<close>\<close>
  "is_digit c \<longleftrightarrow> (let n = (of_char c :: nat) in 48 \<le> n \<and> n \<le> 57)"

definition is_scheme_char :: "char \<Rightarrow> bool" where
  \<comment> \<open>\<^verbatim>\<open>[a-zA-Z\d+\-.]\<close>\<close>
  "is_scheme_char c \<longleftrightarrow>
     is_letter c \<or> is_digit c \<or> c = CHR ''+'' \<or> c = CHR ''-'' \<or> c = CHR ''.''"

definition is_space :: "char \<Rightarrow> bool" where
  \<comment> \<open>\<^verbatim>\<open>\s\<close> and the characters \<^verbatim>\<open>trim\<close> removes: TAB, LF, VT, FF, CR, SP, NBSP\<close>
  "is_space c \<longleftrightarrow> (let n = (of_char c :: nat) in (9 \<le> n \<and> n \<le> 13) \<or> n = 32 \<or> n = 160)"

abbreviation backslash :: char where
  "backslash \<equiv> CHR 0x5C"

fun windows_path :: "string \<Rightarrow> bool" where
  \<comment> \<open>\<^verbatim>\<open>/^[a-zA-Z]:\\/.test(url)\<close>\<close>
  "windows_path (c # d # e # _) \<longleftrightarrow> is_letter c \<and> d = CHR '':'' \<and> e = backslash"
| "windows_path _ \<longleftrightarrow> False"

fun scheme_prefix :: "string \<Rightarrow> bool" where
  \<comment> \<open>\<^verbatim>\<open>/^[a-zA-Z][a-zA-Z\d+\-.]*:/.test(url)\<close>; the colon is outside the starred
      class, so the star stops at the first character that is not in it\<close>
  "scheme_prefix [] \<longleftrightarrow> False"
| "scheme_prefix (c # cs) \<longleftrightarrow>
     is_letter c \<and> (case dropWhile is_scheme_char cs of [] \<Rightarrow> False | d # _ \<Rightarrow> d = CHR '':'')"

definition isAbsoluteUrl :: "string \<Rightarrow> bool" where
  "isAbsoluteUrl url \<longleftrightarrow> (if windows_path url then False else scheme_prefix url)"

section \<open>The library objects the extractor works on\<close>

text \<open>
  \<^verbatim>\<open>new URL(input, base)\<close> belongs to the platform, not to this repository: every
  definition below takes it as the parameter \<open>newURL\<close>, which either throws (\<open>Inl\<close>) or
  returns a URL object. Of the object only the serialisation matters here: the part up
  to the fragment, and the fragment (\<open>None\<close> when the URL has none).
\<close>

datatype js_error = TypeError string

record URL =
  sans_fragment :: string
  fragment :: "string option"

type_synonym url_ctor = "string \<Rightarrow> string \<Rightarrow> js_error + URL"

definition hash :: "URL \<Rightarrow> string" where
  \<comment> \<open>the getter \<^verbatim>\<open>url.hash\<close>\<close>
  "hash u = (case fragment u of None \<Rightarrow> [] | Some f \<Rightarrow> if f = [] then [] else CHR ''#'' # f)"

definition clear_hash :: "URL \<Rightarrow> URL" where
  \<comment> \<open>the assignment \<^verbatim>\<open>url.hash = ''\<close>: the setter of the URL standard removes the
      fragment when it is given the empty string\<close>
  "clear_hash u = u\<lparr>fragment := None\<rparr>"

definition href :: "URL \<Rightarrow> string" where
  \<comment> \<open>the getter \<^verbatim>\<open>url.href\<close>\<close>
  "href u = sans_fragment u @ (case fragment u of None \<Rightarrow> [] | Some f \<Rightarrow> CHR ''#'' # f)"

text \<open>
  Concrete runs need the platform's answers for the inputs they use. \<open>fixtureURL\<close> is a
  constructor that knows a finite table of them, as a test double does, and throws for
  every other input.
\<close>

definition fixtureURL :: "((string \<times> string) \<times> URL) list \<Rightarrow> url_ctor" where
  "fixtureURL answers input base =
     (case map_of answers (input, base) of
        None \<Rightarrow> Inl (TypeError input)
      | Some u \<Rightarrow> Inr u)"

text \<open>
  A document is what \<^verbatim>\<open>cheerio.load(source)\<close> hands to the selectors: its elements in
  document order, each with a tag name and its attributes. The selectors of the source
  are lists of \<^verbatim>\<open>tag[attr]\<close> only, so the nesting of elements plays no role.
\<close>

record element =
  tagName :: string
  attribs :: "string \<rightharpoonup> string"

type_synonym document = "element list"

definition select :: "string list \<Rightarrow> string \<Rightarrow> document \<Rightarrow> element list" where
  \<comment> \<open>\<^verbatim>\<open>$('t1[attr],t2[attr],...')\<close>: the elements with one of the tags that carry the
      attribute, in document order\<close>
  "select tags attr doc = filter (\<lambda>e. tagName e \<in> set tags \<and> attribs e attr \<noteq> None) doc"

section \<open>links.ts\<close>

definition linksAttr :: "(string \<times> string list) list" where
  "linksAttr =
    [(''background'', [''body'']),
     (''cite'', [''blockquote'', ''del'', ''ins'', ''q'']),
     (''data'', [''object'']),
     (''href'', [''a'', ''area'', ''embed'', ''link'']),
     (''icon'', [''command'']),
     (''longdesc'', [''frame'', ''iframe'']),
     (''manifest'', [''html'']),
     (''poster'', [''video'']),
     (''pluginspage'', [''embed'']),
     (''pluginurl'', [''embed'']),
     (''src'', [''audio'', ''embed'', ''frame'', ''iframe'', ''img'', ''input'', ''script'',
                ''source'', ''track'', ''video'']),
     (''srcset'', [''img'', ''source''])]"

record ParsedUrl =
  link :: string
  error :: "js_error option"
  url :: "URL option"

definition parseLink :: "url_ctor \<Rightarrow> string \<Rightarrow> string \<Rightarrow> ParsedUrl" where
  "parseLink newURL l baseUrl =
     (case newURL l baseUrl of
        Inr u \<Rightarrow> \<lparr>link = l, error = None, url = Some (clear_hash u)\<rparr>
      | Inl err \<Rightarrow> \<lparr>link = l, error = Some err, url = None\<rparr>)"

fun split_on :: "char \<Rightarrow> string \<Rightarrow> string list" where
  \<comment> \<open>\<^verbatim>\<open>value.split(c)\<close> for a one-character separator\<close>
  "split_on c [] = [[]]"
| "split_on c (x # xs) =
     (if x = c then [] # split_on c xs
      else (case split_on c xs of [] \<Rightarrow> [[x]] | p # ps \<Rightarrow> (x # p) # ps))"

fun join :: "char \<Rightarrow> string list \<Rightarrow> string" where
  \<comment> \<open>\<^verbatim>\<open>pieces.join(c)\<close>\<close>
  "join c [] = []"
| "join c [p] = p"
| "join c (p # q # ps) = p @ c # join c (q # ps)"

definition trim :: "string \<Rightarrow> string" where
  "trim s = rev (dropWhile is_space (rev (dropWhile is_space s)))"

function split_ws :: "string \<Rightarrow> string list" where
  \<comment> \<open>\<^verbatim>\<open>s.split(/\s+/)\<close>: the pieces between the maximal runs of white space\<close>
  "split_ws s =
     (case dropWhile (\<lambda>c. \<not> is_space c) s of
        [] \<Rightarrow> [takeWhile (\<lambda>c. \<not> is_space c) s]
      | r # rs \<Rightarrow> takeWhile (\<lambda>c. \<not> is_space c) s # split_ws (dropWhile is_space rs))"
  by pat_completeness auto
termination
proof (relation "measure length")
  show "wf (measure length)" by simp
next
  fix s :: string and r rs
  assume "dropWhile (\<lambda>c. \<not> is_space c) s = r # rs"
  then have "length (r # rs) \<le> length s"
    by (metis length_dropWhile_le)
  moreover have "length (dropWhile is_space rs) \<le> length rs"
    by (rule length_dropWhile_le)
  ultimately show "(dropWhile is_space rs, s) \<in> measure length"
    by simp
qed

declare split_ws.simps [simp del]

definition first_piece :: "string list \<Rightarrow> string" where
  \<comment> \<open>\<^verbatim>\<open>pieces[0]\<close>; \<^verbatim>\<open>undefined\<close> for an empty array, which the truth test of the
      caller treats like the empty string\<close>
  "first_piece ps = (case ps of [] \<Rightarrow> [] | p # _ \<Rightarrow> p)"

definition parseAttr :: "string \<Rightarrow> string \<Rightarrow> string list" where
  "parseAttr name v =
     (if name = ''srcset''
      then map (\<lambda>pair. first_piece (split_ws (trim pair))) (split_on CHR '','' v)
      else [v])"

definition getBaseUrl :: "url_ctor \<Rightarrow> string \<Rightarrow> string \<Rightarrow> js_error + string" where
  "getBaseUrl newURL htmlBaseUrl oldBaseUrl =
     (if isAbsoluteUrl htmlBaseUrl then Inr htmlBaseUrl
      else (case newURL htmlBaseUrl oldBaseUrl of
              Inl err \<Rightarrow> Inl err
            | Inr u \<Rightarrow> Inr (href (clear_hash u))))"

definition relValuesToIgnore :: "string list" where
  "relValuesToIgnore = [''dns-prefetch'', ''preconnect'']"

definition rel_ignored :: "element \<Rightarrow> bool" where
  \<comment> \<open>\<^verbatim>\<open>relValuesToIgnore.includes(element.attribs['rel'])\<close>; a missing attribute
      reads as \<^verbatim>\<open>undefined\<close>, which the list does not include\<close>
  "rel_ignored e \<longleftrightarrow>
     (case attribs e ''rel'' of None \<Rightarrow> False | Some r \<Rightarrow> r \<in> set relValuesToIgnore)"

definition each_element :: "url_ctor \<Rightarrow> string \<Rightarrow> string \<Rightarrow> element \<Rightarrow> ParsedUrl list" where
  \<comment> \<open>the callback of \<^verbatim>\<open>.each\<close>: the links one selected element pushes. The
      selector only yields elements that carry the attribute (\<open>select_carries_attr\<close>
      below), so the branch for a missing attribute is never taken\<close>
  "each_element newURL attr realBaseUrl e =
     (case attribs e attr of
        None \<Rightarrow> []
      | Some v \<Rightarrow>
          (let values = parseAttr attr v in
           if tagName e = ''link'' \<and> rel_ignored e then []
           else map (\<lambda>v. parseLink newURL v realBaseUrl) (filter (\<lambda>v. v \<noteq> []) values)))"

definition links_of_attr :: "url_ctor \<Rightarrow> string \<Rightarrow> document \<Rightarrow> string \<times> string list \<Rightarrow> ParsedUrl list" where
  \<comment> \<open>one round of the loop over the attributes\<close>
  "links_of_attr newURL realBaseUrl doc entry =
     (case entry of (attr, tags) \<Rightarrow>
        concat (map (each_element newURL attr realBaseUrl) (select tags attr doc)))"

definition collect_links :: "url_ctor \<Rightarrow> string \<Rightarrow> document \<Rightarrow> ParsedUrl list" where
  \<comment> \<open>the loop \<^verbatim>\<open>for (const attr of attrs)\<close>: the array \<^verbatim>\<open>links\<close> when it ends\<close>
  "collect_links newURL realBaseUrl doc =
     concat (map (links_of_attr newURL realBaseUrl doc) linksAttr)"

definition realBaseUrl_of :: "url_ctor \<Rightarrow> document \<Rightarrow> string \<Rightarrow> js_error + string" where
  \<comment> \<open>lines 38 to 44: the base the links are resolved against\<close>
  "realBaseUrl_of newURL doc baseUrl =
     (case select [''base''] ''href'' doc of
        [] \<Rightarrow> Inr baseUrl
      | b # _ \<Rightarrow>
          (case attribs b ''href'' of
             None \<Rightarrow> Inr baseUrl
           | Some htmlBaseUrl \<Rightarrow> getBaseUrl newURL htmlBaseUrl baseUrl))"

definition getLinks :: "url_ctor \<Rightarrow> document \<Rightarrow> string \<Rightarrow> js_error + ParsedUrl list" where
  \<comment> \<open>an exception of \<^verbatim>\<open>getBaseUrl\<close> is not caught and leaves \<^verbatim>\<open>getLinks\<close>\<close>
  "getLinks newURL doc baseUrl =
     (case realBaseUrl_of newURL doc baseUrl of
        Inl err \<Rightarrow> Inl err
      | Inr realBaseUrl \<Rightarrow> Inr (collect_links newURL realBaseUrl doc))"

section \<open>The crawl orchestrator\<close>

text \<open>
  Modelled from the spec: the orchestrator module, which the tests import as
  \<^verbatim>\<open>../src\<close>, is not among the source files; every definition of this section follows
  sections 3, 4.3 and 4.4 of the specification instead. A CanonicalKey is a
  \<^typ>\<open>string\<close>: the serialisation of a resolved URL without its fragment. The workers
  of the pool interleave; each of their two actions on the shared state (taking a key
  from the queue, and completing a fetch) is one atomic step, as section 5 demands, and a
  run is a sequence of such steps in any order.
\<close>

datatype phase = QUEUED | FETCHING | OK | BROKEN | SKIPPED

datatype response = FetchFailure | Status nat bool

record VisitRecord =
  key :: string
  state :: phase
  parent :: "string option"

record crawl_target =
  root :: string
  recurse :: bool
  skip :: "string \<Rightarrow> bool"
  concurrency :: nat
  check_url :: "string \<Rightarrow> response"
  same_origin :: "string \<Rightarrow> bool"
  children :: "string \<Rightarrow> string list"

record crawl_state =
  visited :: "VisitRecord list"
  queue :: "string list"
  fetches :: "string list"
  referenced :: "string list"

definition seed :: "crawl_target \<Rightarrow> crawl_state" where
  \<comment> \<open>Modelled from the spec: step 1 of section 4.3, the root's key enters \<open>QUEUED\<close>.
      \<open>visited\<close> holds the VisitRecords in discovery order, \<open>fetches\<close> the keys handed
      to the Fetch Client, \<open>referenced\<close> every key a page (or the caller) has named\<close>
  "seed t =
     \<lparr>visited = [\<lparr>key = root t, state = QUEUED, parent = None\<rparr>],
      queue = [root t], fetches = [], referenced = [root t]\<rparr>"

definition has_record :: "crawl_state \<Rightarrow> string \<Rightarrow> bool" where
  \<comment> \<open>Modelled from the spec: "has this URL already been scheduled or resolved"\<close>
  "has_record s k \<longleftrightarrow> k \<in> set (map key (visited s))"

definition state_of :: "crawl_state \<Rightarrow> string \<Rightarrow> phase option" where
  \<comment> \<open>Modelled from the spec: the state of the VisitRecord of a key, \<open>None\<close> for a key
      that is still unseen\<close>
  "state_of s k = map_option state (find (\<lambda>v. key v = k) (visited s))"

definition set_state :: "string \<Rightarrow> phase \<Rightarrow> VisitRecord list \<Rightarrow> VisitRecord list" where
  \<comment> \<open>Modelled from the spec: the state of a record changes as its fetch proceeds; no
      record is deleted\<close>
  "set_state k p vs = map (\<lambda>v. if key v = k then v\<lparr>state := p\<rparr> else v) vs"

definition classify :: "response \<Rightarrow> phase" where
  \<comment> \<open>Modelled from the spec: section 4.4, a failure or a status of 400 or more is
      \<open>BROKEN\<close>, every other status \<open>OK\<close>\<close>
  "classify r = (case r of FetchFailure \<Rightarrow> BROKEN | Status n html \<Rightarrow> if 400 \<le> n then BROKEN else OK)"

definition expandable :: "crawl_target \<Rightarrow> string \<Rightarrow> bool" where
  \<comment> \<open>Modelled from the spec: step 4, the recursion gate (recursion enabled, an HTML
      response, the root's origin); section 8 lets the root page be expanded in a
      crawl without recursion too\<close>
  "expandable t k \<longleftrightarrow>
     (recurse t \<or> k = root t) \<and> same_origin t k
       \<and> (case check_url t k of FetchFailure \<Rightarrow> False | Status n html \<Rightarrow> html)"

definition discover :: "string \<Rightarrow> crawl_state \<Rightarrow> string \<Rightarrow> crawl_state" where
  \<comment> \<open>Modelled from the spec: step 5 for one child reference of the page \<open>p\<close>: a key
      without a record gets one in \<open>QUEUED\<close> and is enqueued, a key with a record is
      not enqueued again\<close>
  "discover p s c =
     (if has_record s c then s\<lparr>referenced := referenced s @ [c]\<rparr>
      else s\<lparr>visited := visited s @ [\<lparr>key = c, state = QUEUED, parent = Some p\<rparr>],
             queue := queue s @ [c],
             referenced := referenced s @ [c]\<rparr>)"

definition dequeue :: "crawl_target \<Rightarrow> crawl_state \<Rightarrow> crawl_state" where
  \<comment> \<open>Modelled from the spec: steps 2 and 3, a worker takes the next key unless the
      pool is busy; a key the skip policy matches becomes \<open>SKIPPED\<close> without a
      fetch, any other key is handed to the Fetch Client\<close>
  "dequeue t s =
     (case queue s of
        [] \<Rightarrow> s
      | k # q \<Rightarrow>
          if concurrency t \<le> length (filter (\<lambda>v. state v = FETCHING) (visited s)) then s
          else if skip t k then s\<lparr>visited := set_state k SKIPPED (visited s), queue := q\<rparr>
          else s\<lparr>visited := set_state k FETCHING (visited s), queue := q,
                 fetches := fetches s @ [k]\<rparr>)"

definition complete :: "crawl_target \<Rightarrow> string \<Rightarrow> crawl_state \<Rightarrow> crawl_state" where
  \<comment> \<open>Modelled from the spec: steps 3 to 5, the fetch of \<open>k\<close> ends: its outcome is
      recorded and, past the recursion gate, its child references are discovered\<close>
  "complete t k s =
     (if state_of s k \<noteq> Some FETCHING then s
      else
        let s' = s\<lparr>visited := set_state k (classify (check_url t k)) (visited s)\<rparr>
        in if expandable t k then foldl (discover k) s' (children t k) else s')"

datatype event = Dequeue | Complete string

fun step :: "crawl_target \<Rightarrow> crawl_state \<Rightarrow> event \<Rightarrow> crawl_state" where
  \<comment> \<open>Modelled from the spec: one atomic action of a worker on the shared state\<close>
  "step t s Dequeue = dequeue t s"
| "step t s (Complete k) = complete t k s"

definition run :: "crawl_target \<Rightarrow> event list \<Rightarrow> crawl_state" where
  \<comment> \<open>Modelled from the spec: a crawl run, from the seed through any interleaving of
      the workers' steps\<close>
  "run t evs = foldl (step t) (seed t) evs"

definition crawl_inv :: "crawl_state \<Rightarrow> bool" where
  \<comment> \<open>Modelled from the spec: what every step of a run preserves\<close>
  "crawl_inv s \<longleftrightarrow>
     distinct (map key (visited s)) \<and> distinct (queue s) \<and> distinct (fetches s)
     \<and> set (referenced s) = set (map key (visited s))
     \<and> set (queue s) \<subseteq> set (map key (visited s))
     \<and> set (fetches s) \<subseteq> set (map key (visited s))
     \<and> set (queue s) \<inter> set (fetches s) = {}"

section \<open>Absolute-URL detection\<close>

lemma scheme_prefix_iff:
  "scheme_prefix s \<longleftrightarrow>
     (\<exists>c body rest. s = c # body @ CHR '':'' # rest \<and> is_letter c \<and> (\<forall>x\<in>set body. is_scheme_char x))"
proof
  assume "scheme_prefix s"
  then obtain c cs where s: "s = c # cs" and c: "is_letter c"
    and d: "\<exists>rest. dropWhile is_scheme_char cs = CHR '':'' # rest"
    by (cases s) (auto split: list.splits)
  from d obtain rest where rest: "dropWhile is_scheme_char cs = CHR '':'' # rest" ..
  have "cs = takeWhile is_scheme_char cs @ CHR '':'' # rest"
    using rest takeWhile_dropWhile_id [of is_scheme_char cs] by simp
  moreover have "\<forall>x\<in>set (takeWhile is_scheme_char cs). is_scheme_char x"
    by (auto dest: set_takeWhileD)
  ultimately show "\<exists>c body rest. s = c # body @ CHR '':'' # rest \<and> is_letter c \<and> (\<forall>x\<in>set body. is_scheme_char x)"
    using s c by blast
next
  assume "\<exists>c body rest. s = c # body @ CHR '':'' # rest \<and> is_letter c \<and> (\<forall>x\<in>set body. is_scheme_char x)"
  then obtain c body rest where s: "s = c # body @ CHR '':'' # rest" and c: "is_letter c"
    and b: "\<forall>x\<in>set body. is_scheme_char x" by blast
  have colon: "\<not> is_scheme_char CHR '':''"
    by (simp add: is_scheme_char_def is_letter_def is_digit_def)
  have "dropWhile is_scheme_char (body @ CHR '':'' # rest) = CHR '':'' # rest"
    using b colon by (simp add: dropWhile_append3)
  then show "scheme_prefix s"
    using s c by simp
qed

lemma windows_path_iff:
  "windows_path s \<longleftrightarrow> (\<exists>c rest. s = c # CHR '':'' # backslash # rest \<and> is_letter c)"
  by (induction s rule: windows_path.induct) auto

text \<open>
  C5. \<open>isAbsoluteUrl\<close> holds of a string exactly when the string starts with a scheme (a
  letter, then letters, digits, \<open>+\<close>, \<open>-\<close> or \<open>.\<close>, then a colon) and does not start with
  a drive (a letter, a colon, a backslash). \<open>getBaseUrl\<close> returns an absolute value as
  it is and resolves every other value against the base URL.
\<close>

theorem isAbsoluteUrl_scheme_not_drive:
  "(isAbsoluteUrl s \<longleftrightarrow>
      (\<exists>c body rest. s = c # body @ CHR '':'' # rest \<and> is_letter c
          \<and> (\<forall>x\<in>set body. is_scheme_char x))
      \<and> \<not> (\<exists>c rest. s = c # CHR '':'' # backslash # rest \<and> is_letter c))
   \<and> getBaseUrl newURL s baseUrl =
       (if isAbsoluteUrl s then Inr s
        else case newURL s baseUrl of Inl err \<Rightarrow> Inl err | Inr u \<Rightarrow> Inr (href (clear_hash u)))"
  unfolding isAbsoluteUrl_def getBaseUrl_def
  by (simp only: scheme_prefix_iff windows_path_iff) simp

theorem isAbsoluteUrl_scheme_not_drive_witness:
  "isAbsoluteUrl ''mailto:a@b''
   \<and> \<not> isAbsoluteUrl (''C:'' @ [backslash] @ ''dir'')
   \<and> \<not> isAbsoluteUrl ''/pageBase/ok''
   \<and> getBaseUrl (fixtureURL []) ''mailto:a@b'' ''http://fake.local/'' = Inr ''mailto:a@b''"
proof -
  have body: "\<forall>x\<in>set ''ailto''. is_scheme_char x"
    by (simp add: is_scheme_char_def is_letter_def is_digit_def)
  have "''mailto:a@b'' = CHR ''m'' # ''ailto'' @ CHR '':'' # ''a@b'' \<and> is_letter CHR ''m''
      \<and> (\<forall>x\<in>set ''ailto''. is_scheme_char x)"
    using body by (simp add: is_letter_def)
  then have ex: "\<exists>c body rest. ''mailto:a@b'' = c # body @ CHR '':'' # rest \<and> is_letter c
      \<and> (\<forall>x\<in>set body. is_scheme_char x)"
    by blast
  have nw: "\<not> (\<exists>c rest. ''mailto:a@b'' = c # CHR '':'' # backslash # rest \<and> is_letter c)"
    by simp
  have a: "isAbsoluteUrl ''mailto:a@b''"
    using isAbsoluteUrl_scheme_not_drive [of "''mailto:a@b''"] ex nw by blast
  have "\<exists>c rest. ''C:'' @ [backslash] @ ''dir'' = c # CHR '':'' # backslash # rest \<and> is_letter c"
    by (simp add: is_letter_def)
  then have b: "\<not> isAbsoluteUrl (''C:'' @ [backslash] @ ''dir'')"
    using isAbsoluteUrl_scheme_not_drive [of "''C:'' @ [backslash] @ ''dir''"] by blast
  have "\<not> (\<exists>c body rest. ''/pageBase/ok'' = c # body @ CHR '':'' # rest \<and> is_letter c
      \<and> (\<forall>x\<in>set body. is_scheme_char x))"
    by (simp add: is_letter_def)
  then have c: "\<not> isAbsoluteUrl ''/pageBase/ok''"
    using isAbsoluteUrl_scheme_not_drive [of "''/pageBase/ok''"] by blast
  have d: "getBaseUrl (fixtureURL []) ''mailto:a@b'' ''http://fake.local/'' = Inr ''mailto:a@b''"
    using isAbsoluteUrl_scheme_not_drive [of "''mailto:a@b''" "fixtureURL []" "''http://fake.local/''"] a
    by simp
  show ?thesis using a b c d by blast
qed


section \<open>Resolution of one link\<close>

text \<open>
  C2. Whenever the constructor accepts a raw value and a base URL, \<open>parseLink\<close> returns
  a URL whose fragment is removed: its \<open>hash\<close> is empty and its \<open>href\<close> is the resolved
  URL up to the fragment, whether or not the raw value carried one.
\<close>

theorem parseLink_strips_fragment:
  assumes "newURL l baseUrl = Inr u0"
  shows "\<exists>u. url (parseLink newURL l baseUrl) = Some u \<and> hash u = [] \<and> fragment u = None
             \<and> sans_fragment u = sans_fragment u0 \<and> href u = sans_fragment u0"
  using assms by (simp add: parseLink_def clear_hash_def hash_def href_def)

theorem parseLink_strips_fragment_witness:
  "url (parseLink
          (fixtureURL [((''/a?x=1#top'', ''http://fake.local/''),
             \<lparr>sans_fragment = ''http://fake.local/a?x=1'', fragment = Some ''top''\<rparr>)])
          ''/a?x=1#top'' ''http://fake.local/'')
     = Some \<lparr>sans_fragment = ''http://fake.local/a?x=1'', fragment = None\<rparr>
   \<and> hash \<lparr>sans_fragment = ''http://fake.local/a?x=1'', fragment = None\<rparr> = []"
proof -
  let ?nu = "fixtureURL [((''/a?x=1#top'', ''http://fake.local/''),
             \<lparr>sans_fragment = ''http://fake.local/a?x=1'', fragment = Some ''top''\<rparr>)]"
  have ok: "?nu ''/a?x=1#top'' ''http://fake.local/''
      = Inr \<lparr>sans_fragment = ''http://fake.local/a?x=1'', fragment = Some ''top''\<rparr>"
    by (simp add: fixtureURL_def)
  show ?thesis
    using parseLink_strips_fragment [of ?nu "''/a?x=1#top''" "''http://fake.local/''", OF ok]
    by (auto simp: hash_def)
qed

section \<open>The extraction loop\<close>

lemma select_carries_attr: "e \<in> set (select tags attr doc) \<Longrightarrow> attribs e attr \<noteq> None"
  by (simp add: select_def)

lemma select_append:
  "select tags attr (d1 @ d2) = select tags attr d1 @ select tags attr d2"
  by (simp add: select_def)

lemma select_Cons:
  "select tags attr (e # d) =
     (if tagName e \<in> set tags \<and> attribs e attr \<noteq> None then [e] else []) @ select tags attr d"
  by (simp add: select_def)

lemma links_of_attr_append:
  "links_of_attr newURL rb (d1 @ d2) entry =
     links_of_attr newURL rb d1 entry @ links_of_attr newURL rb d2 entry"
  by (cases entry) (simp add: links_of_attr_def select_append)

lemma links_of_attr_Cons:
  "links_of_attr newURL rb (e # d) (attr, tags) =
     (if tagName e \<in> set tags \<and> attribs e attr \<noteq> None then each_element newURL attr rb e else [])
       @ links_of_attr newURL rb d (attr, tags)"
  by (auto simp: links_of_attr_def select_Cons)

lemma links_of_attr_Nil: "links_of_attr newURL rb [] entry = []"
  by (cases entry) (simp add: links_of_attr_def select_def)

lemma collect_links_cong:
  assumes "\<And>entry. entry \<in> set linksAttr \<Longrightarrow>
             links_of_attr newURL rb doc entry = links_of_attr newURL' rb' doc' entry"
  shows "collect_links newURL rb doc = collect_links newURL' rb' doc'"
proof -
  have "map (links_of_attr newURL rb doc) linksAttr = map (links_of_attr newURL' rb' doc') linksAttr"
    by (rule map_cong [OF refl]) (rule assms)
  then show ?thesis unfolding collect_links_def by (rule arg_cong)
qed

lemma each_element_ignored:
  "tagName e = ''link'' \<Longrightarrow> rel_ignored e \<Longrightarrow> each_element newURL attr rb e = []"
  by (simp add: each_element_def split: option.split)

lemma rel_ignored_iff:
  "rel_ignored e \<longleftrightarrow> attribs e ''rel'' = Some ''dns-prefetch'' \<or> attribs e ''rel'' = Some ''preconnect''"
  by (auto simp: rel_ignored_def relValuesToIgnore_def split: option.splits)

text \<open>
  C3. A \<open>link\<close> element whose \<open>rel\<close> is \<open>dns-prefetch\<close> or \<open>preconnect\<close> contributes
  nothing: \<open>getLinks\<close> returns what it returns for the document without that element,
  so every other link-bearing attribute is extracted as before.
\<close>

theorem getLinks_skips_prefetch_links:
  assumes "tagName e = ''link''"
    and "attribs e ''rel'' = Some ''dns-prefetch'' \<or> attribs e ''rel'' = Some ''preconnect''"
  shows "collect_links newURL rb (d1 @ e # d2) = collect_links newURL rb (d1 @ d2)
       \<and> getLinks newURL (d1 @ e # d2) baseUrl = getLinks newURL (d1 @ d2) baseUrl"
proof -
  have ign: "rel_ignored e" using assms(2) by (simp add: rel_ignored_iff)
  have "links_of_attr newURL r (d1 @ e # d2) entry = links_of_attr newURL r (d1 @ d2) entry"
    for r entry
    by (cases entry)
      (simp add: links_of_attr_append links_of_attr_Cons each_element_ignored [OF assms(1) ign])
  then have c: "collect_links newURL r (d1 @ e # d2) = collect_links newURL r (d1 @ d2)" for r
    by (intro collect_links_cong)
  have "select [''base''] ''href'' (d1 @ e # d2) = select [''base''] ''href'' (d1 @ d2)"
    using assms(1) by (simp add: select_append select_Cons)
  then have "realBaseUrl_of newURL (d1 @ e # d2) baseUrl = realBaseUrl_of newURL (d1 @ d2) baseUrl"
    by (simp add: realBaseUrl_of_def)
  then show ?thesis using c by (simp add: getLinks_def split: sum.split)
qed


theorem getLinks_skips_prefetch_links_witness:
  "getLinks
     (fixtureURL [((''/site.css'', ''http://fake.local/''),
        \<lparr>sans_fragment = ''http://fake.local/site.css'', fragment = None\<rparr>)])
     [\<lparr>tagName = ''link'', attribs = [''rel'' \<mapsto> ''preconnect'', ''href'' \<mapsto> ''https://fonts.example/'']\<rparr>,
      \<lparr>tagName = ''link'', attribs = [''rel'' \<mapsto> ''stylesheet'', ''href'' \<mapsto> ''/site.css'']\<rparr>]
     ''http://fake.local/''
   = Inr [\<lparr>link = ''/site.css'', error = None,
           url = Some \<lparr>sans_fragment = ''http://fake.local/site.css'', fragment = None\<rparr>\<rparr>]"
proof -
  let ?nu = "fixtureURL [((''/site.css'', ''http://fake.local/''),
        \<lparr>sans_fragment = ''http://fake.local/site.css'', fragment = None\<rparr>)]"
  let ?hint = "\<lparr>tagName = ''link'', attribs = [''rel'' \<mapsto> ''preconnect'', ''href'' \<mapsto> ''https://fonts.example/'']\<rparr>"
  let ?css = "\<lparr>tagName = ''link'', attribs = [''rel'' \<mapsto> ''stylesheet'', ''href'' \<mapsto> ''/site.css'']\<rparr>"
  have t: "tagName ?hint = ''link''" by simp
  have r: "attribs ?hint ''rel'' = Some ''dns-prefetch'' \<or> attribs ?hint ''rel'' = Some ''preconnect''"
    by simp
  have "getLinks ?nu ([] @ ?hint # [?css]) ''http://fake.local/''
      = getLinks ?nu ([] @ [?css]) ''http://fake.local/''"
    using getLinks_skips_prefetch_links [OF t r, of ?nu _ "[]" "[?css]" "''http://fake.local/''"]
    by blast
  moreover have "getLinks ?nu [?css] ''http://fake.local/''
      = Inr [\<lparr>link = ''/site.css'', error = None,
           url = Some \<lparr>sans_fragment = ''http://fake.local/site.css'', fragment = None\<rparr>\<rparr>]"
    by (simp add: getLinks_def realBaseUrl_of_def collect_links_def linksAttr_def
        links_of_attr_def select_def each_element_def parseAttr_def rel_ignored_def
        relValuesToIgnore_def parseLink_def fixtureURL_def clear_hash_def)
  ultimately show ?thesis by simp
qed

section \<open>Resolution errors\<close>

lemma link_parseLink: "link (parseLink newURL l baseUrl) = l"
  by (simp add: parseLink_def split: sum.split)

lemma links_each_element:
  "map link (each_element newURL attr rb e) = map link (each_element newURL' attr rb' e)"
  by (auto simp: each_element_def link_parseLink comp_def split: option.split)

lemma links_links_of_attr:
  "map link (links_of_attr newURL rb doc entry) = map link (links_of_attr newURL' rb' doc entry)"
proof (cases entry)
  case (Pair attr tags)
  show ?thesis unfolding Pair
    by (induction doc)
      (auto simp: links_of_attr_Nil links_of_attr_Cons links_each_element [of newURL _ rb _ newURL' rb'])
qed

lemma links_collect_links:
  "map link (collect_links newURL rb doc) = map link (collect_links newURL' rb' doc)"
proof -
  have "map (map link \<circ> links_of_attr newURL rb doc) linksAttr
      = map (map link \<circ> links_of_attr newURL' rb' doc) linksAttr"
    by (rule map_cong [OF refl]) (simp add: links_links_of_attr [of newURL rb doc _ newURL' rb'])
  then show ?thesis
    unfolding collect_links_def map_concat map_map by (rule arg_cong)
qed

text \<open>
  C8. When the constructor rejects a raw value, \<open>parseLink\<close> returns a record with the
  error set, no URL and the raw text in \<open>link\<close>. Failures do not interrupt the loop: the
  raw texts collected from a document are those collected under a constructor that
  accepts everything.
\<close>

theorem parseLink_error_is_value:
  assumes "newURL l baseUrl = Inl err"
  shows "parseLink newURL l baseUrl = \<lparr>link = l, error = Some err, url = None\<rparr>
       \<and> map link (collect_links newURL baseUrl doc)
           = map link (collect_links (\<lambda>input base. Inr u) baseUrl doc)"
  using assms links_collect_links [of newURL baseUrl doc "\<lambda>input base. Inr u" baseUrl]
  by (simp add: parseLink_def)

theorem parseLink_error_is_value_witness:
  "parseLink (fixtureURL []) ''http://['' ''http://fake.local/''
     = \<lparr>link = ''http://['', error = Some (TypeError ''http://[''), url = None\<rparr>
   \<and> map link (collect_links (fixtureURL []) ''http://fake.local/''
        [\<lparr>tagName = ''a'', attribs = [''href'' \<mapsto> ''http://['']\<rparr>,
         \<lparr>tagName = ''a'', attribs = [''href'' \<mapsto> ''/ok'']\<rparr>])
     = [''http://['', ''/ok'']"
proof -
  let ?doc = "[\<lparr>tagName = ''a'', attribs = [''href'' \<mapsto> ''http://['']\<rparr>,
         \<lparr>tagName = ''a'', attribs = [''href'' \<mapsto> ''/ok'']\<rparr>]"
  have bad: "fixtureURL [] ''http://['' ''http://fake.local/'' = Inl (TypeError ''http://['')"
    by (simp add: fixtureURL_def)
  have "map link (collect_links (\<lambda>input base. Inr \<lparr>sans_fragment = [], fragment = None\<rparr>) ''http://fake.local/'' ?doc)
      = [''http://['', ''/ok'']"
    by (simp add: collect_links_def linksAttr_def
        links_of_attr_def select_def each_element_def parseAttr_def rel_ignored_def
        relValuesToIgnore_def parseLink_def)
  then show ?thesis
    using parseLink_error_is_value [of "fixtureURL []" "''http://[''" "''http://fake.local/''" _ ?doc
        "\<lparr>sans_fragment = [], fragment = None\<rparr>", OF bad]
    by simp
qed


section \<open>The attribute table\<close>

lemma linksAttr_keys:
  "(attr, tags) \<in> set linksAttr \<Longrightarrow> (attr, tags') \<in> set linksAttr \<Longrightarrow> tags' = tags"
  by (auto simp: linksAttr_def)

lemma rel_not_in_table: "(attr, tags) \<in> set linksAttr \<Longrightarrow> attr \<noteq> ''rel''"
  by (auto simp: linksAttr_def)

lemma base_not_in_table: "(attr, tags) \<in> set linksAttr \<Longrightarrow> ''base'' \<notin> set tags"
  by (auto simp: linksAttr_def)

lemma each_element_other_attr:
  assumes "a \<noteq> attr" and "attr \<noteq> ''rel''"
  shows "each_element newURL a rb (e\<lparr>attribs := (attribs e)(attr := x)\<rparr>) = each_element newURL a rb e"
  using assms by (auto simp: each_element_def rel_ignored_def split: option.split)

text \<open>
  C7. An attribute of the table is read only from the tags registered for it. On an
  element whose tag is not registered for the attribute, the attribute may be set to
  any value or removed without changing the links collected; unless the element is a
  \<open>base\<close> element, \<open>getLinks\<close> returns the same result as well.
\<close>

theorem getLinks_registered_tags_only:
  assumes "(attr, tags) \<in> set linksAttr" and "tagName e \<notin> set tags"
  shows "collect_links newURL rb (d1 @ e\<lparr>attribs := (attribs e)(attr := x)\<rparr> # d2)
           = collect_links newURL rb (d1 @ e # d2)
       \<and> (tagName e \<noteq> ''base'' \<longrightarrow>
            getLinks newURL (d1 @ e\<lparr>attribs := (attribs e)(attr := x)\<rparr> # d2) baseUrl
              = getLinks newURL (d1 @ e # d2) baseUrl)"
proof -
  let ?e' = "e\<lparr>attribs := (attribs e)(attr := x)\<rparr>"
  have one: "links_of_attr newURL r [?e'] entry = links_of_attr newURL r [e] entry"
    if "entry \<in> set linksAttr" for r entry
  proof (cases entry)
    case (Pair a ts)
    show ?thesis
    proof (cases "a = attr")
      case True
      with that Pair assms(1) have "ts = tags" by (auto dest: linksAttr_keys)
      with True Pair assms(2) show ?thesis
        by (simp add: links_of_attr_Cons links_of_attr_Nil)
    next
      case False
      then show ?thesis
        using each_element_other_attr [OF False rel_not_in_table [OF assms(1)], of newURL r e x]
        by (auto simp: Pair links_of_attr_Cons links_of_attr_Nil)
    qed
  qed
  have "links_of_attr newURL r (d1 @ ?e' # d2) entry = links_of_attr newURL r (d1 @ e # d2) entry"
    if "entry \<in> set linksAttr" for r entry
    using one [OF that, of r]
      links_of_attr_append [of newURL r d1 "?e' # d2" entry]
      links_of_attr_append [of newURL r "[?e']" d2 entry]
      links_of_attr_append [of newURL r d1 "e # d2" entry]
      links_of_attr_append [of newURL r "[e]" d2 entry]
    by simp
  then have c: "collect_links newURL r (d1 @ ?e' # d2) = collect_links newURL r (d1 @ e # d2)" for r
    by (intro collect_links_cong)
  have "realBaseUrl_of newURL (d1 @ ?e' # d2) baseUrl = realBaseUrl_of newURL (d1 @ e # d2) baseUrl"
    if "tagName e \<noteq> ''base''"
    using that by (simp add: realBaseUrl_of_def select_append select_Cons)
  then show ?thesis using c by (simp add: getLinks_def split: sum.split)
qed

theorem getLinks_registered_tags_only_witness:
  "getLinks
     (fixtureURL [((''/ok'', ''http://fake.local/''),
        \<lparr>sans_fragment = ''http://fake.local/ok'', fragment = None\<rparr>)])
     [\<lparr>tagName = ''div'', attribs = [''href'' \<mapsto> ''/nowhere'']\<rparr>,
      \<lparr>tagName = ''a'', attribs = [''href'' \<mapsto> ''/ok'']\<rparr>]
     ''http://fake.local/''
   = Inr [\<lparr>link = ''/ok'', error = None,
           url = Some \<lparr>sans_fragment = ''http://fake.local/ok'', fragment = None\<rparr>\<rparr>]"
proof -
  let ?nu = "fixtureURL [((''/ok'', ''http://fake.local/''),
        \<lparr>sans_fragment = ''http://fake.local/ok'', fragment = None\<rparr>)]"
  let ?div = "\<lparr>tagName = ''div'', attribs = Map.empty\<rparr>"
  let ?a = "\<lparr>tagName = ''a'', attribs = [''href'' \<mapsto> ''/ok'']\<rparr>"
  have reg: "(''href'', [''a'', ''area'', ''embed'', ''link'']) \<in> set linksAttr"
    by (simp add: linksAttr_def)
  have tag: "tagName ?div \<notin> set [''a'', ''area'', ''embed'', ''link'']"
    by simp
  have "getLinks ?nu ([] @ ?div\<lparr>attribs := (attribs ?div)(''href'' := Some ''/nowhere'')\<rparr> # [?a])
          ''http://fake.local/''
      = getLinks ?nu ([] @ ?div # [?a]) ''http://fake.local/''"
    using getLinks_registered_tags_only [OF reg tag, of ?nu _ "[]" "Some ''/nowhere''" "[?a]"
        "''http://fake.local/''"]
    by simp
  moreover have "getLinks ?nu [?div, ?a] ''http://fake.local/''
      = Inr [\<lparr>link = ''/ok'', error = None,
           url = Some \<lparr>sans_fragment = ''http://fake.local/ok'', fragment = None\<rparr>\<rparr>]"
    by (simp add: getLinks_def realBaseUrl_of_def collect_links_def linksAttr_def
        links_of_attr_def select_def each_element_def parseAttr_def rel_ignored_def
        relValuesToIgnore_def parseLink_def fixtureURL_def clear_hash_def)
  ultimately show ?thesis by simp
qed

section \<open>Order of the result\<close>

text \<open>
  C9. \<open>getLinks\<close> returns the links attribute by attribute, in the order of the table
  (background, cite, data, href, icon, longdesc, manifest, poster, pluginspage,
  pluginurl, src, srcset), all resolved against the real base; within one attribute the
  links follow the document. So \<open>getLinks\<close> puts an \<open>img src\<close> after an \<open>a href\<close> that
  follows it in the markup, while two \<open>a href\<close> keep their order.
\<close>

theorem getLinks_ordered_by_attribute:
  "map fst linksAttr = [''background'', ''cite'', ''data'', ''href'', ''icon'', ''longdesc'',
       ''manifest'', ''poster'', ''pluginspage'', ''pluginurl'', ''src'', ''srcset'']
   \<and> getLinks newURL doc baseUrl =
       (case realBaseUrl_of newURL doc baseUrl of
          Inl err \<Rightarrow> Inl err
        | Inr rb \<Rightarrow>
            Inr (concat (map (\<lambda>(attr, tags).
                   concat (map (each_element newURL attr rb)
                     (filter (\<lambda>e. tagName e \<in> set tags \<and> attribs e attr \<noteq> None) doc)))
                 linksAttr)))
   \<and> getLinks newURL
        [\<lparr>tagName = ''img'', attribs = [''src'' \<mapsto> ''first.png'']\<rparr>,
         \<lparr>tagName = ''a'', attribs = [''href'' \<mapsto> ''second.html'']\<rparr>] baseUrl
       = Inr [parseLink newURL ''second.html'' baseUrl, parseLink newURL ''first.png'' baseUrl]
   \<and> getLinks newURL
        [\<lparr>tagName = ''a'', attribs = [''href'' \<mapsto> ''one.html'']\<rparr>,
         \<lparr>tagName = ''img'', attribs = [''src'' \<mapsto> ''pic.png'']\<rparr>,
         \<lparr>tagName = ''a'', attribs = [''href'' \<mapsto> ''two.html'']\<rparr>] baseUrl
       = Inr [parseLink newURL ''one.html'' baseUrl, parseLink newURL ''two.html'' baseUrl,
              parseLink newURL ''pic.png'' baseUrl]"
proof -
  have order: "map fst linksAttr = [''background'', ''cite'', ''data'', ''href'', ''icon'',
       ''longdesc'', ''manifest'', ''poster'', ''pluginspage'', ''pluginurl'', ''src'', ''srcset'']"
    by (simp add: linksAttr_def)
  have per_attr: "links_of_attr newURL rb doc =
      (\<lambda>(attr, tags). concat (map (each_element newURL attr rb)
         (filter (\<lambda>e. tagName e \<in> set tags \<and> attribs e attr \<noteq> None) doc)))" for rb
    by (rule ext) (simp add: links_of_attr_def select_def split: prod.split)
  have general: "getLinks newURL doc baseUrl =
       (case realBaseUrl_of newURL doc baseUrl of
          Inl err \<Rightarrow> Inl err
        | Inr rb \<Rightarrow>
            Inr (concat (map (\<lambda>(attr, tags).
                   concat (map (each_element newURL attr rb)
                     (filter (\<lambda>e. tagName e \<in> set tags \<and> attribs e attr \<noteq> None) doc)))
                 linksAttr)))"
    by (simp add: getLinks_def collect_links_def per_attr split: sum.split)
  have two: "getLinks newURL
        [\<lparr>tagName = ''img'', attribs = [''src'' \<mapsto> ''first.png'']\<rparr>,
         \<lparr>tagName = ''a'', attribs = [''href'' \<mapsto> ''second.html'']\<rparr>] baseUrl
       = Inr [parseLink newURL ''second.html'' baseUrl, parseLink newURL ''first.png'' baseUrl]"
    by (simp add: getLinks_def realBaseUrl_of_def collect_links_def linksAttr_def
        links_of_attr_def select_def each_element_def parseAttr_def rel_ignored_def)
  have three: "getLinks newURL
        [\<lparr>tagName = ''a'', attribs = [''href'' \<mapsto> ''one.html'']\<rparr>,
         \<lparr>tagName = ''img'', attribs = [''src'' \<mapsto> ''pic.png'']\<rparr>,
         \<lparr>tagName = ''a'', attribs = [''href'' \<mapsto> ''two.html'']\<rparr>] baseUrl
       = Inr [parseLink newURL ''one.html'' baseUrl, parseLink newURL ''two.html'' baseUrl,
              parseLink newURL ''pic.png'' baseUrl]"
    by (simp add: getLinks_def realBaseUrl_of_def collect_links_def linksAttr_def
        links_of_attr_def select_def each_element_def parseAttr_def rel_ignored_def)
  show ?thesis
    using order general two three by (intro conjI)
qed

theorem getLinks_ordered_by_attribute_witness:
  "getLinks
     (fixtureURL
        [((''second.html'', ''http://fake.local/''),
            \<lparr>sans_fragment = ''http://fake.local/second.html'', fragment = None\<rparr>),
         ((''first.png'', ''http://fake.local/''),
            \<lparr>sans_fragment = ''http://fake.local/first.png'', fragment = None\<rparr>)])
     [\<lparr>tagName = ''img'', attribs = [''src'' \<mapsto> ''first.png'']\<rparr>,
      \<lparr>tagName = ''a'', attribs = [''href'' \<mapsto> ''second.html'']\<rparr>]
     ''http://fake.local/''
   = Inr [\<lparr>link = ''second.html'', error = None,
           url = Some \<lparr>sans_fragment = ''http://fake.local/second.html'', fragment = None\<rparr>\<rparr>,
          \<lparr>link = ''first.png'', error = None,
           url = Some \<lparr>sans_fragment = ''http://fake.local/first.png'', fragment = None\<rparr>\<rparr>]"
proof -
  let ?nu = "fixtureURL
        [((''second.html'', ''http://fake.local/''),
            \<lparr>sans_fragment = ''http://fake.local/second.html'', fragment = None\<rparr>),
         ((''first.png'', ''http://fake.local/''),
            \<lparr>sans_fragment = ''http://fake.local/first.png'', fragment = None\<rparr>)]"
  have "getLinks ?nu
        [\<lparr>tagName = ''img'', attribs = [''src'' \<mapsto> ''first.png'']\<rparr>,
         \<lparr>tagName = ''a'', attribs = [''href'' \<mapsto> ''second.html'']\<rparr>] ''http://fake.local/''
       = Inr [parseLink ?nu ''second.html'' ''http://fake.local/'',
              parseLink ?nu ''first.png'' ''http://fake.local/'']"
    using getLinks_ordered_by_attribute [of ?nu "[]" "''http://fake.local/''"] by blast
  then show ?thesis
    by (simp add: parseLink_def fixtureURL_def clear_hash_def)
qed

section \<open>The exclusion of resource hints is an exact match\<close>




section \<open>The base element\<close>

lemma select_none:
  assumes "\<forall>e\<in>set d. \<not> (tagName e \<in> set tags \<and> attribs e attr \<noteq> None)"
  shows "select tags attr d = []"
  using assms by (simp add: select_def)

lemma collect_links_resolved:
  assumes "p \<in> set (collect_links newURL rb doc)"
  shows "p = parseLink newURL (link p) rb"
proof -
  from assms obtain entry where "entry \<in> set linksAttr" and "p \<in> set (links_of_attr newURL rb doc entry)"
    by (auto simp: collect_links_def)
  then obtain attr e where "p \<in> set (each_element newURL attr rb e)"
    by (cases entry) (auto simp: links_of_attr_def)
  then obtain v where "p = parseLink newURL v rb"
    by (auto simp: each_element_def split: option.splits if_splits)
  then show ?thesis by (simp add: link_parseLink)
qed

text \<open>
  C4. When the first \<open>base\<close> element with an \<open>href\<close> carries the value \<open>h\<close>, the links of
  the document are resolved against \<open>h\<close> itself if \<open>h\<close> is absolute, and otherwise against
  \<open>h\<close> resolved against the page's URL; later \<open>base\<close> elements play no role. Every link
  collected is the resolution of its raw text against that one base.
\<close>

theorem getLinks_first_base_href:
  assumes "\<forall>e\<in>set d1. \<not> (tagName e = ''base'' \<and> attribs e ''href'' \<noteq> None)"
    and "tagName b = ''base''" and "attribs b ''href'' = Some h"
  shows "getLinks newURL (d1 @ b # d2) baseUrl =
           (if isAbsoluteUrl h then Inr (collect_links newURL h (d1 @ b # d2))
            else case newURL h baseUrl of
                   Inl err \<Rightarrow> Inl err
                 | Inr u \<Rightarrow> Inr (collect_links newURL (href (clear_hash u)) (d1 @ b # d2)))
       \<and> (\<forall>p\<in>set (collect_links newURL rb (d1 @ b # d2)). p = parseLink newURL (link p) rb)"
proof -
  have "select [''base''] ''href'' d1 = []"
    using assms(1) by (intro select_none) simp
  then have "select [''base''] ''href'' (d1 @ b # d2) = b # select [''base''] ''href'' d2"
    using assms(2,3) by (simp add: select_append select_Cons)
  then have "realBaseUrl_of newURL (d1 @ b # d2) baseUrl = getBaseUrl newURL h baseUrl"
    using assms(3) by (simp add: realBaseUrl_of_def)
  then show ?thesis
    by (auto simp: getLinks_def getBaseUrl_def collect_links_resolved [symmetric] split: sum.split)
qed

theorem getLinks_first_base_href_witness:
  "getLinks
     (fixtureURL
        [((''/anotherBase/'', ''http://fake.local/pageBase/index''),
            \<lparr>sans_fragment = ''http://fake.local/anotherBase/'', fragment = None\<rparr>),
         ((''ok'', ''http://fake.local/anotherBase/''),
            \<lparr>sans_fragment = ''http://fake.local/anotherBase/ok'', fragment = None\<rparr>)])
     [\<lparr>tagName = ''html'', attribs = Map.empty\<rparr>,
      \<lparr>tagName = ''base'', attribs = [''href'' \<mapsto> ''/anotherBase/'']\<rparr>,
      \<lparr>tagName = ''base'', attribs = [''href'' \<mapsto> ''http://ignored.example/'']\<rparr>,
      \<lparr>tagName = ''a'', attribs = [''href'' \<mapsto> ''ok'']\<rparr>]
     ''http://fake.local/pageBase/index''
   = Inr [\<lparr>link = ''ok'', error = None,
           url = Some \<lparr>sans_fragment = ''http://fake.local/anotherBase/ok'', fragment = None\<rparr>\<rparr>]"
proof -
  let ?nu = "fixtureURL
        [((''/anotherBase/'', ''http://fake.local/pageBase/index''),
            \<lparr>sans_fragment = ''http://fake.local/anotherBase/'', fragment = None\<rparr>),
         ((''ok'', ''http://fake.local/anotherBase/''),
            \<lparr>sans_fragment = ''http://fake.local/anotherBase/ok'', fragment = None\<rparr>)]"
  let ?d1 = "[\<lparr>tagName = ''html'', attribs = Map.empty\<rparr>]"
  let ?b = "\<lparr>tagName = ''base'', attribs = [''href'' \<mapsto> ''/anotherBase/'']\<rparr>"
  let ?d2 = "[\<lparr>tagName = ''base'', attribs = [''href'' \<mapsto> ''http://ignored.example/'']\<rparr>,
      \<lparr>tagName = ''a'', attribs = [''href'' \<mapsto> ''ok'']\<rparr>]"
  have 1: "\<forall>e\<in>set ?d1. \<not> (tagName e = ''base'' \<and> attribs e ''href'' \<noteq> None)" by simp
  have 2: "tagName ?b = ''base''" by simp
  have 3: "attribs ?b ''href'' = Some ''/anotherBase/''" by simp
  have rel: "\<not> isAbsoluteUrl ''/anotherBase/''"
    by (simp add: isAbsoluteUrl_def is_letter_def)
  have res: "?nu ''/anotherBase/'' ''http://fake.local/pageBase/index''
      = Inr \<lparr>sans_fragment = ''http://fake.local/anotherBase/'', fragment = None\<rparr>"
    by (simp add: fixtureURL_def)
  have "getLinks ?nu (?d1 @ ?b # ?d2) ''http://fake.local/pageBase/index''
      = Inr (collect_links ?nu ''http://fake.local/anotherBase/'' (?d1 @ ?b # ?d2))"
    using getLinks_first_base_href [OF 1 2 3, of ?nu ?d2 "''http://fake.local/pageBase/index''"] rel res
    by (simp add: href_def clear_hash_def)
  moreover have "collect_links ?nu ''http://fake.local/anotherBase/'' (?d1 @ ?b # ?d2)
      = [\<lparr>link = ''ok'', error = None,
           url = Some \<lparr>sans_fragment = ''http://fake.local/anotherBase/ok'', fragment = None\<rparr>\<rparr>]"
    by (simp add: collect_links_def linksAttr_def
        links_of_attr_def select_def each_element_def parseAttr_def rel_ignored_def
        relValuesToIgnore_def parseLink_def fixtureURL_def clear_hash_def)
  ultimately show ?thesis by simp
qed


section \<open>Multi-valued attributes\<close>

lemma split_on_not_Nil: "split_on c s \<noteq> []"
  by (induction s) (auto split: list.split)

lemma join_Cons_Cons: "ps \<noteq> [] \<Longrightarrow> join c (p # ps) = p @ c # join c ps"
  by (cases ps) simp_all

lemma join_split_on: "join c (split_on c s) = s"
proof (induction s)
  case Nil
  show ?case by simp
next
  case (Cons x xs)
  show ?case
  proof (cases "x = c")
    case True
    then show ?thesis
      using Cons.IH by (simp add: join_Cons_Cons split_on_not_Nil)
  next
    case False
    obtain p ps where ps: "split_on c xs = p # ps"
      using split_on_not_Nil [of c xs] by (cases "split_on c xs") auto
    have "join c ((x # p) # ps) = x # join c (p # ps)"
      by (cases ps) simp_all
    then show ?thesis
      using Cons.IH False ps by simp
  qed
qed

lemma split_on_no_separator: "p \<in> set (split_on c s) \<Longrightarrow> c \<notin> set p"
proof (induction s arbitrary: p)
  case Nil
  then show ?case by simp
next
  case (Cons x xs)
  then show ?case
    by (cases "split_on c xs") (auto split: if_splits)
qed

lemma first_piece_split_ws: "first_piece (split_ws s) = takeWhile (\<lambda>c. \<not> is_space c) s"
  by (subst split_ws.simps) (simp add: first_piece_def split: list.split)

lemma takeWhile_strip_right:
  assumes "\<And>x. P x \<Longrightarrow> \<not> Q x"
  shows "takeWhile Q (rev (dropWhile P (rev t))) = takeWhile Q t"
proof -
  let ?keep = "rev (dropWhile P (rev t))" and ?cut = "rev (takeWhile P (rev t))"
  have t: "t = ?keep @ ?cut"
    using takeWhile_dropWhile_id [of P "rev t"] by (metis rev_append rev_rev_ident)
  have cut: "takeWhile Q ?cut = []"
  proof (cases ?cut)
    case Nil
    then show ?thesis by simp
  next
    case (Cons y ys)
    then have "y \<in> set (takeWhile P (rev t))"
      by (metis list.set_intros(1) set_rev)
    then have "P y" by (rule set_takeWhileD [THEN conjunct2])
    then show ?thesis using Cons assms by simp
  qed
  show ?thesis
  proof (cases "\<forall>x\<in>set ?keep. Q x")
    case True
    then have "takeWhile Q (?keep @ ?cut) = ?keep @ takeWhile Q ?cut"
      by (intro takeWhile_append2) blast
    moreover have "takeWhile Q ?keep = ?keep"
      using True by (simp add: takeWhile_eq_all_conv)
    ultimately show ?thesis using t cut by simp
  next
    case False
    then obtain x where "x \<in> set ?keep" and "\<not> Q x" by blast
    then have "takeWhile Q (?keep @ ?cut) = takeWhile Q ?keep"
      by (rule takeWhile_append1)
    then show ?thesis using t by simp
  qed
qed

lemma leading_token:
  "first_piece (split_ws (trim s)) = takeWhile (\<lambda>c. \<not> is_space c) (dropWhile is_space s)"
  unfolding first_piece_split_ws trim_def
  by (rule takeWhile_strip_right) simp

lemma srcset_is_last:
  "collect_links newURL rb doc =
     concat (map (links_of_attr newURL rb doc) (butlast linksAttr))
       @ links_of_attr newURL rb doc (''srcset'', [''img'', ''source''])"
  by (simp add: collect_links_def linksAttr_def)

lemma each_element_srcset:
  assumes "tagName e = ''img'' \<or> tagName e = ''source''" and "attribs e ''srcset'' = Some v"
  shows "each_element newURL ''srcset'' rb e =
     map (\<lambda>t. parseLink newURL t rb) (filter (\<lambda>t. t \<noteq> [])
       (map (\<lambda>cand. takeWhile (\<lambda>c. \<not> is_space c) (dropWhile is_space cand))
          (split_on CHR '','' v)))"
  using assms by (auto simp: each_element_def parseAttr_def leading_token)

text \<open>
  C6. For a document in which an \<open>img\<close> or \<open>source\<close> element carries a \<open>srcset\<close>,
  \<open>getLinks\<close> returns, after the links of the other attributes and between the \<open>srcset\<close>
  links of the elements before and after it, exactly one link for every non-empty token
  of the value, in order, and nothing for the empty ones. The value is cut at its
  commas; of every piece, the token is what stands between the leading white space and
  the next white space, so descriptors are discarded.
\<close>

theorem srcset_tokens:
  assumes "tagName e = ''img'' \<or> tagName e = ''source''" and "attribs e ''srcset'' = Some v"
  shows "getLinks newURL (d1 @ e # d2) baseUrl =
         (case realBaseUrl_of newURL (d1 @ e # d2) baseUrl of
            Inl err \<Rightarrow> Inl err
          | Inr rb \<Rightarrow>
              Inr (concat (map (links_of_attr newURL rb (d1 @ e # d2)) (butlast linksAttr))
                   @ links_of_attr newURL rb d1 (''srcset'', [''img'', ''source''])
                   @ map (\<lambda>t. parseLink newURL t rb) (filter (\<lambda>t. t \<noteq> [])
                       (map (\<lambda>cand. takeWhile (\<lambda>c. \<not> is_space c) (dropWhile is_space cand))
                          (split_on CHR '','' v)))
                   @ links_of_attr newURL rb d2 (''srcset'', [''img'', ''source''])))
       \<and> (''srcset'', [''img'', ''source'']) \<notin> set (butlast linksAttr)
       \<and> parseAttr ''srcset'' v =
           map (\<lambda>cand. takeWhile (\<lambda>c. \<not> is_space c) (dropWhile is_space cand))
             (split_on CHR '','' v)
       \<and> join CHR '','' (split_on CHR '','' v) = v
       \<and> (\<forall>cand\<in>set (split_on CHR '','' v). CHR '','' \<notin> set cand)"
proof -
  have sel: "tagName e \<in> set [''img'', ''source''] \<and> attribs e ''srcset'' \<noteq> None"
    using assms by auto
  have "links_of_attr newURL rb (d1 @ e # d2) (''srcset'', [''img'', ''source'']) =
      links_of_attr newURL rb d1 (''srcset'', [''img'', ''source''])
      @ map (\<lambda>t. parseLink newURL t rb) (filter (\<lambda>t. t \<noteq> [])
           (map (\<lambda>cand. takeWhile (\<lambda>c. \<not> is_space c) (dropWhile is_space cand))
              (split_on CHR '','' v)))
      @ links_of_attr newURL rb d2 (''srcset'', [''img'', ''source''])" for rb
    using sel
    by (simp add: links_of_attr_append links_of_attr_Cons each_element_srcset [OF assms])
  then have "getLinks newURL (d1 @ e # d2) baseUrl =
         (case realBaseUrl_of newURL (d1 @ e # d2) baseUrl of
            Inl err \<Rightarrow> Inl err
          | Inr rb \<Rightarrow>
              Inr (concat (map (links_of_attr newURL rb (d1 @ e # d2)) (butlast linksAttr))
                   @ links_of_attr newURL rb d1 (''srcset'', [''img'', ''source''])
                   @ map (\<lambda>t. parseLink newURL t rb) (filter (\<lambda>t. t \<noteq> [])
                       (map (\<lambda>cand. takeWhile (\<lambda>c. \<not> is_space c) (dropWhile is_space cand))
                          (split_on CHR '','' v)))
                   @ links_of_attr newURL rb d2 (''srcset'', [''img'', ''source''])))"
    by (simp add: getLinks_def srcset_is_last split: sum.split)
  moreover have "(''srcset'', [''img'', ''source'']) \<notin> set (butlast linksAttr)"
    by (simp add: linksAttr_def)
  moreover have "parseAttr ''srcset'' v =
           map (\<lambda>cand. takeWhile (\<lambda>c. \<not> is_space c) (dropWhile is_space cand))
             (split_on CHR '','' v)"
    by (simp add: parseAttr_def leading_token)
  moreover have "join CHR '','' (split_on CHR '','' v) = v"
    by (rule join_split_on)
  moreover have "\<forall>cand\<in>set (split_on CHR '','' v). CHR '','' \<notin> set cand"
    by (simp add: split_on_no_separator)
  ultimately show ?thesis by (intro conjI)
qed

theorem srcset_tokens_witness:
  "getLinks
     (fixtureURL
        [((''a.png'', ''http://fake.local/''),
            \<lparr>sans_fragment = ''http://fake.local/a.png'', fragment = None\<rparr>),
         ((''b.png'', ''http://fake.local/''),
            \<lparr>sans_fragment = ''http://fake.local/b.png'', fragment = None\<rparr>)])
     [\<lparr>tagName = ''img'', attribs = [''srcset'' \<mapsto> ''a.png 1x,  b.png   2x,, '']\<rparr>]
     ''http://fake.local/''
   = Inr [\<lparr>link = ''a.png'', error = None,
           url = Some \<lparr>sans_fragment = ''http://fake.local/a.png'', fragment = None\<rparr>\<rparr>,
          \<lparr>link = ''b.png'', error = None,
           url = Some \<lparr>sans_fragment = ''http://fake.local/b.png'', fragment = None\<rparr>\<rparr>]
   \<and> split_on CHR '','' ''a.png 1x,  b.png   2x,, '' = [''a.png 1x'', ''  b.png   2x'', [], '' '']"
proof -
  let ?nu = "fixtureURL
        [((''a.png'', ''http://fake.local/''),
            \<lparr>sans_fragment = ''http://fake.local/a.png'', fragment = None\<rparr>),
         ((''b.png'', ''http://fake.local/''),
            \<lparr>sans_fragment = ''http://fake.local/b.png'', fragment = None\<rparr>)]"
  let ?v = "''a.png 1x,  b.png   2x,, ''"
  let ?e = "\<lparr>tagName = ''img'', attribs = [''srcset'' \<mapsto> ?v]\<rparr>"
  have pieces: "split_on CHR '','' ?v = [''a.png 1x'', ''  b.png   2x'', [], '' '']"
    by simp
  have t: "tagName ?e = ''img'' \<or> tagName ?e = ''source''" by simp
  have a: "attribs ?e ''srcset'' = Some ?v" by simp
  have base: "realBaseUrl_of ?nu [?e] ''http://fake.local/'' = Inr ''http://fake.local/''"
    by (simp add: realBaseUrl_of_def select_def)
  have before: "concat (map (links_of_attr ?nu ''http://fake.local/'' [?e]) (butlast linksAttr)) = []"
    by (simp add: linksAttr_def links_of_attr_def select_def)
  have "getLinks ?nu [?e] ''http://fake.local/'' =
      Inr [parseLink ?nu ''a.png'' ''http://fake.local/'', parseLink ?nu ''b.png'' ''http://fake.local/'']"
    using srcset_tokens [OF t a, of ?nu "[]" "[]" "''http://fake.local/''"]
    by (simp add: base before links_of_attr_Nil is_space_def)
  then show ?thesis
    using pieces by (simp add: parseLink_def fixtureURL_def clear_hash_def)
qed

section \<open>Deduplication in the crawl\<close>

lemma keys_set_state: "map key (set_state k p vs) = map key vs"
  by (induction vs) (simp_all add: set_state_def)

lemma key_set_set_state: "key ` set (set_state k p vs) = key ` set vs"
  using keys_set_state [of k p vs] by (metis set_map)

lemma inv_seed: "crawl_inv (seed t)"
  by (simp add: crawl_inv_def seed_def)

lemma inv_discover: "crawl_inv s \<Longrightarrow> crawl_inv (discover p s c)"
  by (auto simp: crawl_inv_def discover_def has_record_def)

lemma inv_discover_all: "crawl_inv s \<Longrightarrow> crawl_inv (foldl (discover p) s cs)"
  by (induction cs arbitrary: s) (simp_all add: inv_discover)

lemma inv_dequeue: "crawl_inv s \<Longrightarrow> crawl_inv (dequeue t s)"
  by (auto simp: crawl_inv_def dequeue_def keys_set_state key_set_set_state split: list.splits)

lemma inv_complete: "crawl_inv s \<Longrightarrow> crawl_inv (complete t k s)"
proof -
  assume s: "crawl_inv s"
  let ?s' = "s\<lparr>visited := set_state k (classify (check_url t k)) (visited s)\<rparr>"
  have "crawl_inv ?s'"
    using s by (simp add: crawl_inv_def keys_set_state key_set_set_state)
  then show ?thesis
    using s by (simp add: complete_def Let_def inv_discover_all)
qed

lemma inv_step: "crawl_inv s \<Longrightarrow> crawl_inv (step t s ev)"
  by (cases ev) (simp_all add: inv_dequeue inv_complete)

lemma inv_steps: "crawl_inv s \<Longrightarrow> crawl_inv (foldl (step t) s evs)"
  by (induction evs arbitrary: s) (simp_all add: inv_step)

lemma inv_run: "crawl_inv (run t evs)"
  by (simp add: run_def inv_steps inv_seed)

lemma count_list_distinct: "distinct xs \<Longrightarrow> count_list xs x = (if x \<in> set xs then 1 else 0)"
  by (induction xs) auto

text \<open>
  C1. In every state a crawl run reaches, every key that has been referenced, however
  often and by however many pages, has exactly one VisitRecord and has been handed to
  the Fetch Client at most once.
\<close>

theorem crawl_dedup:
  "\<forall>k\<in>set (referenced (run t evs)).
      count_list (map key (visited (run t evs))) k = 1
      \<and> count_list (fetches (run t evs)) k \<le> 1"
  using inv_run [of t evs] by (auto simp: crawl_inv_def count_list_distinct)

theorem crawl_dedup_witness:
  "count_list (referenced (run
       \<lparr>root = ''http://fake.local/'', recurse = False, skip = (\<lambda>k. False), concurrency = 2,
        check_url = (\<lambda>k. Status 200 True), same_origin = (\<lambda>k. True),
        children = (\<lambda>k. if k = ''http://fake.local/''
                         then [''http://fake.local/a'', ''http://fake.local/a''] else [])\<rparr>
       [Dequeue, Complete ''http://fake.local/'', Dequeue, Complete ''http://fake.local/a'']))
     ''http://fake.local/a'' = 2
   \<and> count_list (map key (visited (run
       \<lparr>root = ''http://fake.local/'', recurse = False, skip = (\<lambda>k. False), concurrency = 2,
        check_url = (\<lambda>k. Status 200 True), same_origin = (\<lambda>k. True),
        children = (\<lambda>k. if k = ''http://fake.local/''
                         then [''http://fake.local/a'', ''http://fake.local/a''] else [])\<rparr>
       [Dequeue, Complete ''http://fake.local/'', Dequeue, Complete ''http://fake.local/a''])))
     ''http://fake.local/a'' = 1
   \<and> fetches (run
       \<lparr>root = ''http://fake.local/'', recurse = False, skip = (\<lambda>k. False), concurrency = 2,
        check_url = (\<lambda>k. Status 200 True), same_origin = (\<lambda>k. True),
        children = (\<lambda>k. if k = ''http://fake.local/''
                         then [''http://fake.local/a'', ''http://fake.local/a''] else [])\<rparr>
       [Dequeue, Complete ''http://fake.local/'', Dequeue, Complete ''http://fake.local/a''])
     = [''http://fake.local/'', ''http://fake.local/a'']"
proof -
  let ?t = "\<lparr>root = ''http://fake.local/'', recurse = False, skip = (\<lambda>k. False), concurrency = 2,
        check_url = (\<lambda>k. Status 200 True), same_origin = (\<lambda>k. True),
        children = (\<lambda>k. if k = ''http://fake.local/''
                         then [''http://fake.local/a'', ''http://fake.local/a''] else [])\<rparr>"
  let ?evs = "[Dequeue, Complete ''http://fake.local/'', Dequeue, Complete ''http://fake.local/a'']"
  have r: "run ?t ?evs =
      \<lparr>visited = [\<lparr>key = ''http://fake.local/'', state = OK, parent = None\<rparr>,
                  \<lparr>key = ''http://fake.local/a'', state = OK, parent = Some ''http://fake.local/''\<rparr>],
       queue = [], fetches = [''http://fake.local/'', ''http://fake.local/a''],
       referenced = [''http://fake.local/'', ''http://fake.local/a'', ''http://fake.local/a'']\<rparr>"
    by (simp add: run_def seed_def dequeue_def complete_def state_of_def set_state_def
        classify_def expandable_def discover_def has_record_def)
  have "''http://fake.local/a'' \<in> set (referenced (run ?t ?evs))"
    by (simp only: r) simp
  then have "count_list (map key (visited (run ?t ?evs))) ''http://fake.local/a'' = 1"
    using crawl_dedup [of ?t ?evs] by blast
  moreover have "count_list (referenced (run ?t ?evs)) ''http://fake.local/a'' = 2"
    by (simp only: r) simp
  moreover have "fetches (run ?t ?evs) = [''http://fake.local/'', ''http://fake.local/a'']"
    by (simp only: r) simp
  ultimately show ?thesis by blast
qed

end
